theory Spec2Isabelle
  imports Complex_Main "HOL-Library.Word"
begin

section \<open>Representative-frame thumbnailer (video.c)\<close>

text \<open>
  A shallow embedding of \<^verbatim>\<open>video.c\<close>: the histogram builder and the selector
  (\<^verbatim>\<open>compute_error\<close>, \<^verbatim>\<open>select_best_frame\<close>), the converter (\<^verbatim>\<open>encode_frame\<close>)
  and the sampler with the final dispatch (\<^verbatim>\<open>extract_video_image\<close>).

  Conventions of the model.
  \<^item> A C \<^verbatim>\<open>int\<close> is an \<^typ>\<open>int\<close>. Where the code's arithmetic can leave the range of
    \<^verbatim>\<open>int\<close> (the count \<^verbatim>\<open>hists[..][..]++\<close> and the byte index \<^verbatim>\<open>i * 3 + k\<close>), the
    overflow, undefined in C, is written out as an error. The loop counters and
    \<^verbatim>\<open>frame_i\<close> are bounded by their loop conditions. Conversions to
    \<^verbatim>\<open>unsigned long\<close> and \<^verbatim>\<open>size_t\<close> are written out (\<open>mod 2 ^ 64\<close>).
  \<^item> A C \<^verbatim>\<open>double\<close> is a \<^typ>\<open>real\<close>: rounding is not modelled.
  \<^item> Undefined behaviour (a read outside an array, a null dereference, a signed
    overflow) is the error value \<open>Inl\<close> of a sum type.
  \<^item> The libav functions are parameters of the model: records of functions
    over an abstract state of the decode session.
\<close>

subsection \<open>Constants and data\<close>

definition HIST_SIZE :: nat where
  "HIST_SIZE = 3 * 256"

definition MAX_FRAMES :: nat where
  "MAX_FRAMES = 100"

text \<open>
  The error codes of libavutil on Linux: \<^verbatim>\<open>AVERROR(e)\<close> is \<open>- e\<close>, \<^verbatim>\<open>EAGAIN\<close> is 11,
  \<^verbatim>\<open>ENOMEM\<close> is 12, and \<^verbatim>\<open>AVERROR_EOF\<close> is \<^verbatim>\<open>-MKTAG('E','O','F',' ')\<close>.
\<close>

definition AVERROR :: "int \<Rightarrow> int" where
  "AVERROR e = - e"

definition EAGAIN :: int where
  "EAGAIN = 11"

definition ENOMEM :: int where
  "ENOMEM = 12"

definition AVERROR_EOF :: int where
  "AVERROR_EOF = - 541478725"

definition INT_MAX :: int where
  "INT_MAX = 2 ^ 31 - 1"

datatype ub = OutOfBounds | NullPointer | SignedOverflow

text \<open>
  A byte pointer: \<open>Null\<close>, or a position \<open>off\<close> in an allocated block \<open>buf\<close>.
  \<open>p[i]\<close> is defined only inside the block.
\<close>

datatype byte_ptr = Null | Ptr "8 word list" int

fun ptr_add :: "byte_ptr \<Rightarrow> int \<Rightarrow> byte_ptr" where
  "ptr_add Null n = Null"
| "ptr_add (Ptr buf off) n = Ptr buf (off + n)"

fun ptr_read :: "byte_ptr \<Rightarrow> int \<Rightarrow> ub + 8 word" where
  "ptr_read Null i = Inl NullPointer"
| "ptr_read (Ptr buf off) i =
     (if 0 \<le> off + i \<and> off + i < int (length buf)
      then Inr (buf ! nat (off + i)) else Inl OutOfBounds)"

text \<open>
  The fields of libavutil's \<^verbatim>\<open>AVFrame\<close> that the code reads. \<open>data\<close> is \<open>None\<close>
  when the expression \<^verbatim>\<open>f->data\<close> is null, and otherwise holds \<^verbatim>\<open>f->data[0]\<close>;
  \<open>linesize\<close> is \<^verbatim>\<open>f->linesize[0]\<close>. In libavutil \<^verbatim>\<open>data\<close> is an array member
  (\<^verbatim>\<open>uint8_t *data[AV_NUM_DATA_POINTERS]\<close>), so \<^verbatim>\<open>f->data\<close> is never null there: a
  frame fresh from \<^verbatim>\<open>av_frame_alloc\<close> is \<open>blank_frame\<close> below.
\<close>

record AVFrame =
  width :: int
  height :: int
  format :: int
  data :: "byte_ptr option"
  linesize :: int

definition blank_frame :: AVFrame where
  "blank_frame = \<lparr>width = 0, height = 0, format = - 1, data = Some Null, linesize = 0\<rparr>"

text \<open>One row \<^verbatim>\<open>hists[i]\<close> (or \<^verbatim>\<open>average\<close>): \<open>HIST_SIZE\<close> bins, indexed from 0.\<close>

type_synonym histogram = "nat \<Rightarrow> int"

definition zero_hist :: histogram where
  "zero_hist = (\<lambda>b. 0)"

definition hist_total :: "histogram \<Rightarrow> int" where
  "hist_total h = (\<Sum>b<HIST_SIZE. h b)"

definition channel_total :: "nat \<Rightarrow> histogram \<Rightarrow> int" where
  "channel_total k h = (\<Sum>b<256. h (k * 256 + b))"

subsection \<open>Loops that can stop with undefined behaviour\<close>

fun for_loop :: "nat list \<Rightarrow> (nat \<Rightarrow> 's \<Rightarrow> ub + 's) \<Rightarrow> 's \<Rightarrow> ub + 's" where
  "for_loop [] body s = Inr s"
| "for_loop (i # is) body s =
     (case body i s of Inl e \<Rightarrow> Inl e | Inr s' \<Rightarrow> for_loop is body s')"

subsection \<open>Histogram builder (lines 45--53 of select-best-frame)\<close>

text \<open>
  \<^verbatim>\<open>for (k = 0; k < 3; k++) hists[frame_i][k * 256 + p[i * 3 + k]]++;\<close>
  The index \<^verbatim>\<open>i * 3 + k\<close> and the incremented count are \<^verbatim>\<open>int\<close>s.
\<close>

definition hist_channel :: "byte_ptr \<Rightarrow> nat \<Rightarrow> nat \<Rightarrow> histogram \<Rightarrow> ub + histogram" where
  "hist_channel p i k h =
     (if INT_MAX < int i * 3 + int k then Inl SignedOverflow
      else (case ptr_read p (int i * 3 + int k) of
              Inl e \<Rightarrow> Inl e
            | Inr v \<Rightarrow>
                if INT_MAX \<le> h (k * 256 + unat v) then Inl SignedOverflow
                else Inr (h(k * 256 + unat v := h (k * 256 + unat v) + 1))))"

definition hist_pixel :: "byte_ptr \<Rightarrow> nat \<Rightarrow> histogram \<Rightarrow> ub + histogram" where
  "hist_pixel p i h = for_loop [0..<3] (hist_channel p i) h"

text \<open>\<^verbatim>\<open>for (i = 0; i < f->width; i++) ...\<close>\<close>

definition hist_row :: "int \<Rightarrow> byte_ptr \<Rightarrow> histogram \<Rightarrow> ub + histogram" where
  "hist_row w p h = for_loop [0..<nat w] (hist_pixel p) h"

text \<open>
  \<^verbatim>\<open>p = f->data[0]; for (j = 0; j < f->height; j++) { ...; p += f->linesize[0]; }\<close>
  The loop state is the pointer \<open>p\<close> and the row of counts.
\<close>

definition hist_rows_step :: "AVFrame \<Rightarrow> nat \<Rightarrow> byte_ptr \<times> histogram \<Rightarrow> ub + byte_ptr \<times> histogram" where
  "hist_rows_step f j s =
     (case hist_row (width f) (fst s) (snd s) of
        Inl e \<Rightarrow> Inl e
      | Inr h' \<Rightarrow> Inr (ptr_add (fst s) (linesize f), h'))"

definition hist_frame :: "AVFrame \<Rightarrow> byte_ptr \<Rightarrow> histogram \<Rightarrow> ub + histogram" where
  "hist_frame f p0 h =
     (case for_loop [0..<nat (height f)] (hist_rows_step f) (p0, h) of
        Inl e \<Rightarrow> Inl e
      | Inr s \<Rightarrow> Inr (snd s))"

text \<open>
  The packed 3-bytes-per-pixel layout the builder assumes: the plane is there, and
  each of the \<open>height\<close> rows, \<open>linesize\<close> apart, holds \<open>3 * width\<close> bytes inside the
  block. The picture is small enough for the byte index and the pixel count to be
  \<^verbatim>\<open>int\<close>s (libavutil refuses picture sizes with
  \<open>(w + 128) * (h + 128) \<ge> INT_MAX / 8\<close>, which implies both bounds).
\<close>

fun row_in_block :: "byte_ptr \<Rightarrow> int \<Rightarrow> int \<Rightarrow> bool" where
  "row_in_block Null start n = False"
| "row_in_block (Ptr buf off) start n =
     (0 \<le> off + start \<and> off + start + n \<le> int (length buf))"

definition packed_rgb24 :: "AVFrame \<Rightarrow> byte_ptr \<Rightarrow> bool" where
  "packed_rgb24 f p =
     (0 \<le> width f \<and> 0 \<le> height f \<and>
      3 * width f \<le> INT_MAX \<and> width f * height f \<le> INT_MAX \<and>
      list_all (\<lambda>j. row_in_block p (int j * linesize f) (3 * width f)) [0..<nat (height f)])"

subsection \<open>Selector (compute-error and select-best-frame)\<close>

text \<open>
  \<^verbatim>\<open>compute_error\<close>: the sum over the \<open>HIST_SIZE\<close> bins of the squared difference
  \<open>median[i] - hist[i]\<close>.
\<close>

definition compute_error :: "histogram \<Rightarrow> (nat \<Rightarrow> real) \<Rightarrow> real" where
  "compute_error hist median =
     fold (\<lambda>i sum_sq_err.
             sum_sq_err + (median i - real_of_int (hist i)) * (median i - real_of_int (hist i)))
       [0..<HIST_SIZE] 0"

text \<open>An array read \<^verbatim>\<open>xs[i]\<close>: undefined outside the array.\<close>

definition arr_get :: "'a list \<Rightarrow> int \<Rightarrow> ub + 'a" where
  "arr_get xs i = (if 0 \<le> i \<and> i < int (length xs) then Inr (xs ! nat i) else Inl OutOfBounds)"

text \<open>
  Lines 39--54: the loop over \<^verbatim>\<open>frames\<close> that builds \<^verbatim>\<open>hists[frame_i]\<close> and stops, with
  \<^verbatim>\<open>frame_i--\<close>, at the first entry that is null or whose \<^verbatim>\<open>data\<close> is null. When no
  entry stops it, the loop ends with \<open>frame_i = MAX_FRAMES\<close>. The result is the value
  of \<^verbatim>\<open>frame_i\<close> after the loop, and \<^verbatim>\<open>hists\<close>.
\<close>

function compute_hists ::
  "AVFrame option list \<Rightarrow> int \<Rightarrow> histogram list \<Rightarrow> ub + int \<times> histogram list" where
  "compute_hists frames frame_i hists =
     (if frame_i < int MAX_FRAMES then
        (case arr_get frames frame_i of
           Inl e \<Rightarrow> Inl e
         | Inr None \<Rightarrow> Inr (frame_i - 1, hists)
         | Inr (Some f) \<Rightarrow>
             (case data f of
                None \<Rightarrow> Inr (frame_i - 1, hists)
              | Some p \<Rightarrow>
                  (case arr_get hists frame_i of
                     Inl e \<Rightarrow> Inl e
                   | Inr row \<Rightarrow>
                       (case hist_frame f p row of
                          Inl e \<Rightarrow> Inl e
                        | Inr row' \<Rightarrow>
                            compute_hists frames (frame_i + 1) (hists[nat frame_i := row'])))))
      else Inr (frame_i, hists))"
  by pat_completeness auto
termination
  by (relation "measure (\<lambda>(frames, frame_i, hists). nat (int MAX_FRAMES - frame_i))") auto

text \<open>
  Lines 61--68. Both loops run to \<^verbatim>\<open>frame_i\<close> inclusive; the inner one assigns
  \<^verbatim>\<open>average[j] = (double)hists[i][j]\<close>, and then \<^verbatim>\<open>average[j] /= frame_i + 1\<close>.
\<close>

definition average_assign ::
  "histogram list \<Rightarrow> nat \<Rightarrow> nat \<Rightarrow> (nat \<Rightarrow> real) \<Rightarrow> ub + (nat \<Rightarrow> real)" where
  "average_assign hists j i average =
     (case arr_get hists (int i) of
        Inl e \<Rightarrow> Inl e
      | Inr row \<Rightarrow> Inr (average(j := real_of_int (row j))))"

definition average_bin ::
  "int \<Rightarrow> histogram list \<Rightarrow> nat \<Rightarrow> (nat \<Rightarrow> real) \<Rightarrow> ub + (nat \<Rightarrow> real)" where
  "average_bin frame_i hists j average =
     (case for_loop [0..<nat (frame_i + 1)] (average_assign hists j) average of
        Inl e \<Rightarrow> Inl e
      | Inr average' \<Rightarrow> Inr (average'(j := average' j / real_of_int (frame_i + 1))))"

definition average_hists :: "int \<Rightarrow> histogram list \<Rightarrow> ub + (nat \<Rightarrow> real)" where
  "average_hists frame_i hists =
     for_loop [0..<nat (frame_i + 1)] (average_bin frame_i hists) (\<lambda>b. 0)"

text \<open>
  Lines 71--78. The loop state is \<^verbatim>\<open>best_i\<close> and \<^verbatim>\<open>min_sq_err\<close>; a frame replaces the
  best one when \<^verbatim>\<open>i == 0 || sq_err < min_sq_err\<close>.
\<close>

definition closest_step ::
  "histogram list \<Rightarrow> (nat \<Rightarrow> real) \<Rightarrow> nat \<Rightarrow> int \<times> real \<Rightarrow> ub + int \<times> real" where
  "closest_step hists average i s =
     (case arr_get hists (int i) of
        Inl e \<Rightarrow> Inl e
      | Inr row \<Rightarrow>
          (let sq_err = compute_error row average
           in if i = 0 \<or> sq_err < snd s then Inr (int i, sq_err) else Inr s))"

definition closest_frame :: "int \<Rightarrow> histogram list \<Rightarrow> (nat \<Rightarrow> real) \<Rightarrow> ub + int" where
  "closest_frame frame_i hists average =
     (case for_loop [0..<nat (frame_i + 1)] (closest_step hists average) (0, - 1) of
        Inl e \<Rightarrow> Inl e
      | Inr s \<Rightarrow> Inr (fst s))"

definition select_best_frame :: "AVFrame option list \<Rightarrow> ub + int" where
  "select_best_frame frames =
     (case compute_hists frames 0 (replicate MAX_FRAMES zero_hist) of
        Inl e \<Rightarrow> Inl e
      | Inr (frame_i, hists) \<Rightarrow>
          if frame_i = - 1 then Inr (- 1)
          else (case average_hists frame_i hists of
                  Inl e \<Rightarrow> Inl e
                | Inr average \<Rightarrow> closest_frame frame_i hists average))"

subsection \<open>Converter (encode-frame)\<close>

text \<open>
  \<^verbatim>\<open>struct Buffer\<close> of \<^verbatim>\<open>video.h\<close>: the fields \<^verbatim>\<open>data\<close>, \<^verbatim>\<open>size\<close>, \<^verbatim>\<open>width\<close> and \<^verbatim>\<open>height\<close>
  (named \<open>img_...\<close> here, apart from the frame's fields). \<open>img_data\<close> is \<open>None\<close> for a
  null pointer, and otherwise the bytes of the allocated block.
\<close>

record Buffer =
  img_data :: "8 word list option"
  img_size :: nat
  img_width :: nat
  img_height :: nat

text \<open>
  The library calls of the converter, as parameters:
  \<^item> \<open>sws_getContext w h fmt\<close>: whether \<^verbatim>\<open>sws_getContext(w, h, fmt, w, h, AV_PIX_FMT_RGBA,
    SWS_BICUBIC | SWS_ACCURATE_RND, ...)\<close> returns a context;
  \<^item> \<open>av_image_get_buffer_size fmt w h align\<close>: the result of
    \<^verbatim>\<open>av_image_get_buffer_size(fmt, w, h, align)\<close>;
  \<^item> \<open>malloc n\<close>: whether \<^verbatim>\<open>malloc(n)\<close> returns a block;
  \<^item> \<open>sws_scale frame stride\<close>: the value \<^verbatim>\<open>sws_scale\<close> returns and the byte it leaves
    at each offset of the destination block.
\<close>

text \<open>
  The pixel format \<^verbatim>\<open>AV_PIX_FMT_RGBA\<close>, a constant of \<^verbatim>\<open>libavutil/pixfmt.h\<close>. (It is
  number 26 of the enumeration in the current versions of the library; no statement
  depends on the number.)
\<close>

definition AV_PIX_FMT_RGBA :: int where
  "AV_PIX_FMT_RGBA = 26"

record swscale =
  sws_getContext :: "int \<Rightarrow> int \<Rightarrow> int \<Rightarrow> bool"
  av_image_get_buffer_size :: "int \<Rightarrow> int \<Rightarrow> int \<Rightarrow> int \<Rightarrow> int"
  malloc :: "nat \<Rightarrow> bool"
  sws_scale :: "AVFrame \<Rightarrow> int \<Rightarrow> int \<times> (nat \<Rightarrow> 8 word)"

text \<open>Conversions: \<^verbatim>\<open>int\<close> to the 64-bit \<^verbatim>\<open>unsigned long\<close> and \<^verbatim>\<open>size_t\<close>, and back to \<^verbatim>\<open>int\<close>.\<close>

definition to_ulong :: "int \<Rightarrow> nat" where
  "to_ulong x = nat (x mod 2 ^ 64)"

definition to_int :: "nat \<Rightarrow> int" where
  "to_int n = (let m = int n mod 2 ^ 32 in if m < 2 ^ 31 then m else m - 2 ^ 32)"

text \<open>\<^verbatim>\<open>dst_linesize[0] = 4 * img->width\<close>, the stride handed to \<^verbatim>\<open>sws_scale\<close>.\<close>

definition dst_linesize :: "Buffer \<Rightarrow> int" where
  "dst_linesize img = to_int ((4 * img_width img) mod 2 ^ 64)"

definition encode_frame :: "swscale \<Rightarrow> Buffer \<Rightarrow> AVFrame \<Rightarrow> int \<times> Buffer" where
  "encode_frame sws img frame =
     (if \<not> sws_getContext sws (width frame) (height frame) (format frame)
      then (AVERROR ENOMEM, img)
      else
        (let img1 = img\<lparr>img_width := to_ulong (width frame)\<rparr>;
             img2 = img1\<lparr>img_height := to_ulong (height frame)\<rparr>;
             img3 = img2\<lparr>img_size :=
                      to_ulong (av_image_get_buffer_size sws AV_PIX_FMT_RGBA
                                  (width frame) (height frame) 1)\<rparr>;
             scaled = sws_scale sws frame (dst_linesize img3);
             img4 = img3\<lparr>img_data :=
                      (if malloc sws (img_size img3)
                       then Some (map (snd scaled) [0..<img_size img3]) else None)\<rparr>
         in (0, img4)))"

subsection \<open>Sampler and pipeline (extract-video-image)\<close>

record AVPacket =
  stream_index :: int

text \<open>
  The demux/decode session, as functions over its state \<open>'w\<close>:
  \<^verbatim>\<open>av_read_frame\<close> returns its result code and the packet,
  \<^verbatim>\<open>avcodec_send_packet\<close> its result code, \<^verbatim>\<open>av_frame_alloc\<close> a frame or null,
  \<^verbatim>\<open>avcodec_receive_frame\<close> its result code and the frame as it leaves it.
\<close>

record 'w libav =
  av_read_frame :: "'w \<Rightarrow> (int \<times> AVPacket) \<times> 'w"
  avcodec_send_packet :: "AVPacket \<Rightarrow> 'w \<Rightarrow> int \<times> 'w"
  av_frame_alloc :: "'w \<Rightarrow> AVFrame option \<times> 'w"
  avcodec_receive_frame :: "AVFrame \<Rightarrow> 'w \<Rightarrow> (int \<times> AVFrame) \<times> 'w"

text \<open>The local variables of \<^verbatim>\<open>extract_video_image\<close>, and the session state.\<close>

record 'w locals =
  err :: int
  frame_i :: int
  frames :: "AVFrame option list"
  avfc :: 'w

text \<open>The variables as they are initialised, lines 114--117.\<close>

definition start :: "'w \<Rightarrow> 'w locals" where
  "start w = \<lparr>err = 0, frame_i = 0, frames = replicate MAX_FRAMES None, avfc = w\<rparr>"

text \<open>
  \<^verbatim>\<open>if (!frames[frame_i]) frames[frame_i] = av_frame_alloc();\<close> The result is the frame
  in the slot afterwards (\<open>None\<close> when the allocation failed).
\<close>

definition frame_slot :: "'w libav \<Rightarrow> AVFrame option \<Rightarrow> 'w \<Rightarrow> AVFrame option \<times> 'w" where
  "frame_slot L slot w = (case slot of None \<Rightarrow> av_frame_alloc L w | Some f \<Rightarrow> (Some f, w))"

text \<open>
  The \<^verbatim>\<open>while (1)\<close> loop, lines 120--164, up to the label \<^verbatim>\<open>end\<close>. \<open>None\<close> is a loop
  that never leaves; \<open>Some (Inr s)\<close> is the state at the label.
\<close>

partial_function (option) read_frames ::
  "'w libav \<Rightarrow> int \<Rightarrow> 'w locals \<Rightarrow> (ub + 'w locals) option" where
  "read_frames L stream s =
     (let rd = av_read_frame L (avfc s); e = fst (fst rd); pkt = snd (fst rd); w1 = snd rd
      in if e = 0 then
           (if stream_index pkt = stream then
              (let snt = avcodec_send_packet L pkt w1; e2 = fst snt; w2 = snd snt
               in if e2 < 0 then Some (Inr (s\<lparr>err := e2, avfc := w2\<rparr>))
                  else
                    (case arr_get (frames s) (frame_i s) of
                       Inl u \<Rightarrow> Some (Inl u)
                     | Inr slot \<Rightarrow>
                         (let al = frame_slot L slot w2; w3 = snd al
                          in case fst al of
                               None \<Rightarrow> Some (Inr (s\<lparr>err := AVERROR ENOMEM, avfc := w3\<rparr>))
                             | Some f \<Rightarrow>
                                 (let rcv = avcodec_receive_frame L f w3;
                                      e3 = fst (fst rcv); w4 = snd rcv;
                                      fs = (frames s)[nat (frame_i s) := Some (snd (fst rcv))]
                                  in if e3 = 0 then
                                       (if frame_i s + 1 = int MAX_FRAMES
                                        then Some (Inr \<lparr>err = e3, frame_i = frame_i s + 1,
                                                         frames = fs, avfc = w4\<rparr>)
                                        else read_frames L stream
                                               \<lparr>err = e3, frame_i = frame_i s + 1,
                                                frames = fs, avfc = w4\<rparr>)
                                     else if e3 = AVERROR EAGAIN then
                                       read_frames L stream
                                         \<lparr>err = e3, frame_i = frame_i s, frames = fs, avfc = w4\<rparr>
                                     else Some (Inr \<lparr>err = e3, frame_i = frame_i s,
                                                      frames = fs, avfc = w4\<rparr>)))))
            else read_frames L stream (s\<lparr>err := e, avfc := w1\<rparr>))
         else if e = - 1 then
           (if frame_i s \<noteq> 0 then
              (case arr_get (frames s) 0 of
                 Inl u \<Rightarrow> Some (Inl u)
               | Inr None \<Rightarrow> Some (Inl NullPointer)
               | Inr (Some f0) \<Rightarrow>
                   (if data f0 \<noteq> None then Some (Inr (s\<lparr>err := 0, avfc := w1\<rparr>))
                    else Some (Inr (s\<lparr>err := e, avfc := w1\<rparr>))))
            else Some (Inr (s\<lparr>err := e, avfc := w1\<rparr>)))
         else Some (Inr (s\<lparr>err := e, avfc := w1\<rparr>)))"

text \<open>
  One turn of the loop, lines 121--163, taken by itself: \<open>Inl r\<close> when the turn leaves
  the loop (\<open>r\<close> is then what \<open>read_frames\<close> returns: the state at the label
  \<^verbatim>\<open>end\<close>, or undefined behaviour), \<open>Inr s'\<close> when the loop goes round, with the
  variables \<open>s'\<close>. Lemma \<open>read_frames_turn\<close>: the loop is the iteration of its turn.
\<close>

definition turn :: "'w libav \<Rightarrow> int \<Rightarrow> 'w locals \<Rightarrow> (ub + 'w locals) + 'w locals" where
  "turn L stream s =
     (let rd = av_read_frame L (avfc s); e = fst (fst rd); pkt = snd (fst rd); w1 = snd rd
      in if e = 0 then
           (if stream_index pkt = stream then
              (let snt = avcodec_send_packet L pkt w1; e2 = fst snt; w2 = snd snt
               in if e2 < 0 then Inl (Inr (s\<lparr>err := e2, avfc := w2\<rparr>))
                  else
                    (case arr_get (frames s) (frame_i s) of
                       Inl u \<Rightarrow> Inl (Inl u)
                     | Inr slot \<Rightarrow>
                         (let al = frame_slot L slot w2; w3 = snd al
                          in case fst al of
                               None \<Rightarrow> Inl (Inr (s\<lparr>err := AVERROR ENOMEM, avfc := w3\<rparr>))
                             | Some f \<Rightarrow>
                                 (let rcv = avcodec_receive_frame L f w3;
                                      e3 = fst (fst rcv); w4 = snd rcv;
                                      fs = (frames s)[nat (frame_i s) := Some (snd (fst rcv))]
                                  in if e3 = 0 then
                                       (if frame_i s + 1 = int MAX_FRAMES
                                        then Inl (Inr \<lparr>err = e3, frame_i = frame_i s + 1,
                                                        frames = fs, avfc = w4\<rparr>)
                                        else Inr \<lparr>err = e3, frame_i = frame_i s + 1,
                                                   frames = fs, avfc = w4\<rparr>)
                                     else if e3 = AVERROR EAGAIN then
                                       Inr \<lparr>err = e3, frame_i = frame_i s, frames = fs, avfc = w4\<rparr>
                                     else Inl (Inr \<lparr>err = e3, frame_i = frame_i s,
                                                     frames = fs, avfc = w4\<rparr>)))))
            else Inr (s\<lparr>err := e, avfc := w1\<rparr>))
         else if e = - 1 then
           (if frame_i s \<noteq> 0 then
              (case arr_get (frames s) 0 of
                 Inl u \<Rightarrow> Inl (Inl u)
               | Inr None \<Rightarrow> Inl (Inl NullPointer)
               | Inr (Some f0) \<Rightarrow>
                   (if data f0 \<noteq> None then Inl (Inr (s\<lparr>err := 0, avfc := w1\<rparr>))
                    else Inl (Inr (s\<lparr>err := e, avfc := w1\<rparr>))))
            else Inl (Inr (s\<lparr>err := e, avfc := w1\<rparr>)))
         else Inl (Inr (s\<lparr>err := e, avfc := w1\<rparr>)))"


text \<open>
  Lines 170--185, after the label \<^verbatim>\<open>end\<close>: the \<^verbatim>\<open>switch (err)\<close> whose case
  \<^verbatim>\<open>AVERROR_EOF\<close> falls through to case 0. The result is the returned \<^verbatim>\<open>err\<close> and
  \<^verbatim>\<open>*img\<close>. The release of the packet and of the frames changes neither.
\<close>

definition select_and_encode ::
  "swscale \<Rightarrow> Buffer \<Rightarrow> int \<Rightarrow> AVFrame option list \<Rightarrow> ub + int \<times> Buffer" where
  "select_and_encode sws img n fs =
     (if n < 1 then Inr (- 1, img)
      else (case select_best_frame fs of
              Inl u \<Rightarrow> Inl u
            | Inr best \<Rightarrow>
                if best = - 1 then Inr (- 1, img)
                else (case arr_get fs best of
                        Inl u \<Rightarrow> Inl u
                      | Inr None \<Rightarrow> Inl NullPointer
                      | Inr (Some f) \<Rightarrow> Inr (encode_frame sws img f))))"

definition extract_end :: "swscale \<Rightarrow> Buffer \<Rightarrow> 'w locals \<Rightarrow> ub + int \<times> Buffer" where
  "extract_end sws img s =
     (if err s = AVERROR_EOF \<or> err s = 0
      then select_and_encode sws img (frame_i s) (frames s)
      else Inr (err s, img))"

definition extract_video_image ::
  "'w libav \<Rightarrow> swscale \<Rightarrow> Buffer \<Rightarrow> 'w \<Rightarrow> int \<Rightarrow> (ub + int \<times> Buffer) option" where
  "extract_video_image L sws img w stream =
     (case read_frames L stream (start w) of
        None \<Rightarrow> None
      | Some (Inl u) \<Rightarrow> Some (Inl u)
      | Some (Inr s) \<Rightarrow> Some (extract_end sws img s))"

subsection \<open>Predicates of the statements\<close>

text \<open>
  \<open>counted h h' n\<close>: from \<open>h\<close> to \<open>h'\<close>, \<open>n\<close> pixels were counted: \<open>n\<close> more in each
  channel's 256 bins, \<open>3 * n\<close> more over all bins.
\<close>

definition counted :: "histogram \<Rightarrow> histogram \<Rightarrow> int \<Rightarrow> bool" where
  "counted h h' n =
     (hist_total h' = hist_total h + 3 * n \<and>
      channel_total 0 h' = channel_total 0 h + n \<and>
      channel_total 1 h' = channel_total 1 h + n \<and>
      channel_total 2 h' = channel_total 2 h + n)"

text \<open>
  \<open>room h m\<close>: the counts of \<open>h\<close> are not negative, and \<open>m\<close> more pixels can be
  counted before a count of \<open>h\<close> leaves the range of \<^verbatim>\<open>int\<close>.
\<close>

definition room :: "histogram \<Rightarrow> int \<Rightarrow> bool" where
  "room h m =
     ((\<forall>b. 0 \<le> h b) \<and>
      channel_total 0 h + m \<le> INT_MAX \<and>
      channel_total 1 h + m \<le> INT_MAX \<and>
      channel_total 2 h + m \<le> INT_MAX)"

text \<open>
  An entry of \<^verbatim>\<open>frames\<close> that the loop of lines 39--54 takes for a frame and whose
  plane it can read: not null, \<^verbatim>\<open>data\<close> not null, and in the packed layout.
\<close>

definition scannable :: "AVFrame option \<Rightarrow> bool" where
  "scannable x =
     (case x of
        None \<Rightarrow> False
      | Some f \<Rightarrow> (case data f of None \<Rightarrow> False | Some p \<Rightarrow> packed_rgb24 f p))"

text \<open>
  \<open>first_minimum E k b\<close>: among the indices below \<open>k\<close>, \<open>b\<close> is the first one where
  the error \<open>E\<close> is least.
\<close>

definition first_minimum :: "(nat \<Rightarrow> real) \<Rightarrow> nat \<Rightarrow> nat \<Rightarrow> bool" where
  "first_minimum E k b = (b < k \<and> (\<forall>i<k. E b \<le> E i) \<and> (\<forall>i<b. E b < E i))"

text \<open>
  What holds of the sampler's variables at the head of its loop: the array has its
  \<open>MAX_FRAMES\<close> slots, \<open>frame_i\<close> is inside it, and the slots below \<open>frame_i\<close> hold
  frames.
\<close>

definition sampling :: "'w locals \<Rightarrow> bool" where
  "sampling s =
     (length (frames s) = MAX_FRAMES \<and> 0 \<le> frame_i s \<and> frame_i s < int MAX_FRAMES \<and>
      list_all (\<lambda>i. frames s ! i \<noteq> None) [0..<nat (frame_i s)])"




text \<open>
  The picture of a frame is there: \<^verbatim>\<open>data[0]\<close> points to a plane. (The frame that
  \<^verbatim>\<open>av_frame_alloc\<close> returns has none.)
\<close>

definition has_pixel_data :: "AVFrame \<Rightarrow> bool" where
  "has_pixel_data f = (case data f of Some (Ptr buf off) \<Rightarrow> True | _ \<Rightarrow> False)"


subsection \<open>Synthetic frames, sessions and converters\<close>

text \<open>A frame of one pixel \<open>(r, g, b)\<close>, in a block of three bytes.\<close>

definition pixel_frame :: "8 word \<Rightarrow> 8 word \<Rightarrow> 8 word \<Rightarrow> AVFrame" where
  "pixel_frame r g b =
     \<lparr>width = 1, height = 1, format = 2, data = Some (Ptr [r, g, b] 0), linesize = 3\<rparr>"

text \<open>A frame of 2 by 2 pixels whose rows are 8 bytes apart (two bytes of padding).\<close>

definition padded_frame :: AVFrame where
  "padded_frame =
     \<lparr>width = 2, height = 2, format = 2,
      data = Some (Ptr [1, 2, 3, 1, 2, 3, 0, 0, 9, 9, 9, 1, 2, 3, 0, 0] 0), linesize = 8\<rparr>"

text \<open>
  A scripted session of one stream (index 0). The state counts the packets read;
  packet \<open>n\<close> makes the decoder answer \<open>script ! n\<close>: a decoded frame, or
  \<^verbatim>\<open>AVERROR(EAGAIN)\<close> with the frame left blank (as it also answers before any
  packet). After the script the reader returns \<open>final\<close>.
\<close>

datatype answer = Decoded AVFrame | NeedMoreInput

definition scripted :: "int \<Rightarrow> answer list \<Rightarrow> nat libav" where
  "scripted final script =
     \<lparr>av_read_frame =
        (\<lambda>n. if n < length script then ((0, \<lparr>stream_index = 0\<rparr>), Suc n)
             else ((final, \<lparr>stream_index = 0\<rparr>), n)),
      avcodec_send_packet = (\<lambda>pkt n. (0, n)),
      av_frame_alloc = (\<lambda>n. (Some blank_frame, n)),
      avcodec_receive_frame =
        (\<lambda>f n. if 0 < n \<and> n \<le> length script then
                  (case script ! (n - 1) of
                     Decoded fr \<Rightarrow> ((0, fr), n)
                   | NeedMoreInput \<Rightarrow> ((AVERROR EAGAIN, blank_frame), n))
                else ((AVERROR EAGAIN, blank_frame), n))\<rparr>"




text \<open>
  A converter library: a context for every picture of positive size, 4 bytes for
  each pixel, every allocation granted, and \<open>r\<close> the value \<^verbatim>\<open>sws_scale\<close> returns.
\<close>

definition rgba_lib :: "int \<Rightarrow> swscale" where
  "rgba_lib r =
     \<lparr>sws_getContext = (\<lambda>w h fmt. 0 < w \<and> 0 < h),
      av_image_get_buffer_size = (\<lambda>fmt w h align. w * h * 4),
      malloc = (\<lambda>n. True),
      sws_scale = (\<lambda>f stride. (r, \<lambda>i. 255))\<rparr>"


definition no_image :: Buffer where
  "no_image = \<lparr>img_data = None, img_size = 0, img_width = 0, img_height = 0\<rparr>"

section \<open>Properties\<close>

subsection \<open>Loops\<close>


lemma for_loop_inv:
  assumes "I 0 s"
    and "\<And>n s. n < length is \<Longrightarrow> I n s \<Longrightarrow> \<exists>s'. body (is ! n) s = Inr s' \<and> I (Suc n) s'"
  shows "\<exists>s'. for_loop is body s = Inr s' \<and> I (length is) s'"
  using assms
proof (induction "is" arbitrary: s I)
  case Nil
  then show ?case by simp
next
  case (Cons i "is")
  from Cons.prems(2) [of 0 s] Cons.prems(1)
  obtain s1 where s1: "body i s = Inr s1" "I (Suc 0) s1" by auto
  have "\<exists>s'. for_loop is body s1 = Inr s' \<and> (\<lambda>n. I (Suc n)) (length is) s'"
  proof (rule Cons.IH)
    show "I (Suc 0) s1" by (rule s1)
  next
    fix n s assume "n < length is" "I (Suc n) s"
    then show "\<exists>s'. body (is ! n) s = Inr s' \<and> I (Suc (Suc n)) s'"
      using Cons.prems(2) [of "Suc n" s] by simp
  qed
  then show ?case using s1 by simp
qed

lemma for_loop_upt_inv:
  assumes "I 0 s"
    and "\<And>n s. n < m \<Longrightarrow> I n s \<Longrightarrow> \<exists>s'. body n s = Inr s' \<and> I (Suc n) s'"
  shows "\<exists>s'. for_loop [0..<m] body s = Inr s' \<and> I m s'"
  using for_loop_inv [of I s "[0..<m]" body] assms by simp

lemma hist_total_incr:
  "b < HIST_SIZE \<Longrightarrow> hist_total (h(b := h b + 1)) = hist_total h + 1"
proof -
  assume b: "b < HIST_SIZE"
  have "(\<Sum>x<HIST_SIZE. (h(b := h b + 1)) x) = (\<Sum>x<HIST_SIZE. h x + (if x = b then 1 else 0))"
    by (rule sum.cong) auto
  also have "\<dots> = (\<Sum>x<HIST_SIZE. h x) + (\<Sum>x<HIST_SIZE. if x = b then 1 else 0)"
    by (simp add: sum.distrib)
  also have "(\<Sum>x<HIST_SIZE. if x = b then 1 else 0) = (1::int)"
    using b by simp
  finally show ?thesis by (simp add: hist_total_def)
qed

lemma channel_total_incr:
  assumes "k < 3" "k' < 3" "v < 256"
  shows "channel_total k (h(k' * 256 + v := h (k' * 256 + v) + 1))
           = channel_total k h + (if k = k' then 1 else 0)"
proof -
  have eq: "(k * 256 + x = k' * 256 + v) = (k = k' \<and> x = v)" if "x < 256" for x
  proof
    assume e: "k * 256 + x = k' * 256 + v"
    have "(k * 256 + x) div 256 = k" "(k * 256 + x) mod 256 = x" using that by simp_all
    moreover have "(k' * 256 + v) div 256 = k'" "(k' * 256 + v) mod 256 = v"
      using assms(3) by simp_all
    ultimately show "k = k' \<and> x = v" using e by metis
  qed simp
  have "(\<Sum>x<256. (h(k' * 256 + v := h (k' * 256 + v) + 1)) (k * 256 + x))
        = (\<Sum>x<256. h (k * 256 + x) + (if k = k' \<and> x = v then 1 else 0))"
    by (rule sum.cong) (auto simp: eq)
  also have "\<dots> = (\<Sum>x<256. h (k * 256 + x)) + (\<Sum>x<256. if k = k' \<and> x = v then 1 else 0)"
    by (simp add: sum.distrib)
  also have "(\<Sum>x<256. if k = k' \<and> x = v then 1 else 0) = (if k = k' then 1 else (0::int))"
    using assms by (cases "k = k'") simp_all
  finally show ?thesis by (simp add: channel_total_def)
qed

subsection \<open>The histogram of a frame\<close>

lemma upt_3: "[0..<3] = [0, 1, 2]"
  by (simp add: upt_rec)

lemma room_less: "room h m \<Longrightarrow> 0 \<le> m' \<Longrightarrow> m' \<le> m \<Longrightarrow> room h m'"
  by (simp add: room_def)

lemma room_counted:
  assumes "room h (n + m)" "counted h h' n" "\<forall>b. 0 \<le> h' b"
  shows "room h' m"
  using assms by (simp add: room_def counted_def)

lemma bin_le_channel_total:
  assumes "\<forall>b. 0 \<le> h b" "v < 256"
  shows "h (k * 256 + v) \<le> channel_total k h"
  unfolding channel_total_def
  by (rule member_le_sum [of v "{..<256}" "\<lambda>b. h (k * 256 + b)"]) (use assms in auto)

lemma hist_channel_counts:
  assumes "row_in_block p 0 n" "int i * 3 + int k < n" "n \<le> INT_MAX" "k < 3"
    and nn: "\<forall>b. 0 \<le> h b" and lt: "channel_total k h < INT_MAX"
  shows "\<exists>h'. hist_channel p i k h = Inr h' \<and> (\<forall>b. 0 \<le> h' b) \<and>
           hist_total h' = hist_total h + 1 \<and>
           (\<forall>c<3. channel_total c h' = channel_total c h + (if c = k then 1 else 0))"
proof (cases p)
  case Null
  with assms show ?thesis by simp
next
  case (Ptr buf off)
  let ?v = "buf ! nat (off + (int i * 3 + int k))"
  have ix: "\<not> INT_MAX < int i * 3 + int k" using assms(2,3) by simp
  have rd: "ptr_read p (int i * 3 + int k) = Inr ?v"
    using assms(1,2) Ptr by simp
  have v: "unat ?v < 256"
    using unsigned_less [of ?v, where ?'a = nat] by simp
  then have b: "k * 256 + unat ?v < HIST_SIZE"
    using assms(4) by (simp add: HIST_SIZE_def)
  have "h (k * 256 + unat ?v) \<le> channel_total k h"
    by (rule bin_le_channel_total [OF nn v])
  with lt have c: "\<not> INT_MAX \<le> h (k * 256 + unat ?v)" by simp
  have "\<forall>b. 0 \<le> (h(k * 256 + unat ?v := h (k * 256 + unat ?v) + 1)) b"
    using nn by (simp add: add_nonneg_nonneg)
  then show ?thesis
    using ix rd c v assms(4)
    by (simp add: hist_channel_def hist_total_incr [OF b] channel_total_incr)
qed

lemma hist_pixel_counts:
  assumes "row_in_block p 0 n" "int i * 3 + 3 \<le> n" "n \<le> INT_MAX" and r: "room h 1"
  shows "\<exists>h'. hist_pixel p i h = Inr h' \<and> counted h h' 1 \<and> (\<forall>b. 0 \<le> h' b)"
proof -
  from r have nn: "\<forall>b. 0 \<le> h b"
    and c0: "channel_total 0 h < INT_MAX" and c1: "channel_total 1 h < INT_MAX"
    and c2: "channel_total 2 h < INT_MAX"
    by (simp_all add: room_def)
  obtain h1 where h1: "hist_channel p i 0 h = Inr h1" "\<forall>b. 0 \<le> h1 b"
      "hist_total h1 = hist_total h + 1"
      "\<forall>c<3. channel_total c h1 = channel_total c h + (if c = 0 then 1 else 0)"
    using hist_channel_counts [OF assms(1) _ assms(3) _ nn c0, of i] assms(2) by auto
  from h1(4) c1 have c1': "channel_total 1 h1 < INT_MAX" by simp
  obtain h2 where h2: "hist_channel p i 1 h1 = Inr h2" "\<forall>b. 0 \<le> h2 b"
      "hist_total h2 = hist_total h1 + 1"
      "\<forall>c<3. channel_total c h2 = channel_total c h1 + (if c = 1 then 1 else 0)"
    using hist_channel_counts [OF assms(1) _ assms(3) _ h1(2) c1', of i] assms(2) by auto
  from h1(4) h2(4) c2 have c2': "channel_total 2 h2 < INT_MAX" by simp
  obtain h3 where h3: "hist_channel p i 2 h2 = Inr h3" "\<forall>b. 0 \<le> h3 b"
      "hist_total h3 = hist_total h2 + 1"
      "\<forall>c<3. channel_total c h3 = channel_total c h2 + (if c = 2 then 1 else 0)"
    using hist_channel_counts [OF assms(1) _ assms(3) _ h2(2) c2', of i] assms(2) by auto
  have "hist_pixel p i h = Inr h3"
    using h1(1) h2(1) h3(1) by (simp add: hist_pixel_def upt_3)
  moreover have "counted h h3 1"
    using h1(3,4) h2(3,4) h3(3,4) by (simp add: counted_def)
  ultimately show ?thesis using h3(2) by blast
qed

lemma hist_row_counts:
  assumes "row_in_block p 0 (3 * w)" "0 \<le> w" "3 * w \<le> INT_MAX" and r: "room h w"
  shows "\<exists>h'. hist_row w p h = Inr h' \<and> counted h h' w \<and> (\<forall>b. 0 \<le> h' b)"
proof -
  let ?I = "\<lambda>n h'. counted h h' (int n) \<and> (\<forall>b. 0 \<le> h' b)"
  have "\<exists>h'. for_loop [0..<nat w] (hist_pixel p) h = Inr h' \<and> ?I (nat w) h'"
  proof (rule for_loop_upt_inv [where I = ?I])
    show "?I 0 h" using r by (simp add: counted_def room_def)
  next
    fix n s assume n: "n < nat w" and s: "?I n s"
    from n have "int n * 3 + 3 \<le> 3 * w" by linarith
    moreover have "room s 1"
    proof (rule room_counted [of h "int n"])
      show "room h (int n + 1)" by (rule room_less [OF r]) (use n in auto)
    qed (use s in auto)
    ultimately obtain s' where "hist_pixel p n s = Inr s'" "counted s s' 1" "\<forall>b. 0 \<le> s' b"
      using hist_pixel_counts [OF assms(1) _ assms(3), of n s] by blast
    with s show "\<exists>s'. hist_pixel p n s = Inr s' \<and> ?I (Suc n) s'"
      by (auto simp: counted_def)
  qed
  with assms(2) show ?thesis by (simp add: hist_row_def)
qed

lemma row_in_block_ptr_add: "row_in_block (ptr_add p a) 0 n = row_in_block p a n"
  by (cases p) simp_all

lemma ptr_add_ptr_add: "ptr_add (ptr_add p a) b = ptr_add p (a + b)"
  by (cases p) simp_all

lemma ptr_add_0: "ptr_add p 0 = p"
  by (cases p) simp_all

lemma hist_frame_counts:
  assumes "packed_rgb24 f p" and r: "room h (width f * height f)"
  shows "\<exists>h'. hist_frame f p h = Inr h' \<and> counted h h' (width f * height f) \<and>
           (\<forall>b. 0 \<le> h' b)"
proof -
  from assms(1) have w: "0 \<le> width f" and hh: "0 \<le> height f"
    and w3: "3 * width f \<le> INT_MAX"
    and rows: "\<And>j. j < nat (height f) \<Longrightarrow> row_in_block p (int j * linesize f) (3 * width f)"
    by (auto simp: packed_rgb24_def list_all_iff)
  let ?I = "\<lambda>n s. fst s = ptr_add p (int n * linesize f) \<and>
                 counted h (snd s) (width f * int n) \<and> (\<forall>b. 0 \<le> snd s b)"
  have "\<exists>s'. for_loop [0..<nat (height f)] (hist_rows_step f) (p, h) = Inr s' \<and>
          ?I (nat (height f)) s'"
  proof (rule for_loop_upt_inv [where I = ?I])
    show "?I 0 (p, h)" using r by (simp add: counted_def ptr_add_0 room_def)
  next
    fix n s assume n: "n < nat (height f)" and s: "?I n s"
    have rb: "row_in_block (fst s) 0 (3 * width f)"
      using rows [OF n] s by (simp add: row_in_block_ptr_add)
    have "width f * int (Suc n) \<le> width f * height f"
      using n w by (intro mult_left_mono) auto
    then have le: "width f * int n + width f \<le> width f * height f"
      by (simp add: algebra_simps)
    have "room (snd s) (width f)"
    proof (rule room_counted [of h "width f * int n"])
      show "room h (width f * int n + width f)"
        by (rule room_less [OF r _ le]) (use w in auto)
    qed (use s in auto)
    from hist_row_counts [OF rb w w3 this]
    obtain h' where h': "hist_row (width f) (fst s) (snd s) = Inr h'"
      "counted (snd s) h' (width f)" "\<forall>b. 0 \<le> h' b" by blast
    have "counted h h' (width f * int (Suc n))"
      using s h'(2) by (simp add: counted_def algebra_simps)
    moreover have "ptr_add (fst s) (linesize f) = ptr_add p (int (Suc n) * linesize f)"
      using s by (simp add: ptr_add_ptr_add algebra_simps)
    ultimately show "\<exists>s'. hist_rows_step f n s = Inr s' \<and> ?I (Suc n) s'"
      using h'(1,3) by (simp add: hist_rows_step_def)
  qed
  then obtain s' where "for_loop [0..<nat (height f)] (hist_rows_step f) (p, h) = Inr s'"
    "counted h (snd s') (width f * int (nat (height f)))" "\<forall>b. 0 \<le> snd s' b" by blast
  with hh show ?thesis by (auto simp: hist_frame_def)
qed

lemma hist_total_zero: "hist_total zero_hist = 0"
  by (simp add: hist_total_def zero_hist_def)

lemma channel_total_zero: "channel_total k zero_hist = 0"
  by (simp add: channel_total_def zero_hist_def)

lemma room_zero: "0 \<le> m \<Longrightarrow> m \<le> INT_MAX \<Longrightarrow> room zero_hist m"
  by (simp add: room_def channel_total_zero) (simp add: zero_hist_def)

lemma packed_rgb24_room: "packed_rgb24 f p \<Longrightarrow> room zero_hist (width f * height f)"
  by (rule room_zero) (simp_all add: packed_rgb24_def)

text \<open>
  Claim C3, as amended. The builder counts every pixel once in each of the three
  channel sub-histograms: for a frame of width \<open>W\<close> and height \<open>H\<close> in the packed
  3-bytes-per-pixel layout, it returns a histogram (it reads nothing outside the
  plane and no count overflows), each 256-bin sub-histogram sums to \<open>W * H\<close>, and all
  768 bins sum to \<open>3 * W * H\<close>.
\<close>

theorem histogram_total_three_per_pixel:
  assumes "packed_rgb24 f p"
  shows "\<exists>h. hist_frame f p zero_hist = Inr h \<and>
           hist_total h = 3 * (width f * height f) \<and>
           channel_total 0 h = width f * height f \<and>
           channel_total 1 h = width f * height f \<and>
           channel_total 2 h = width f * height f"
  using hist_frame_counts [OF assms packed_rgb24_room [OF assms]]
  by (auto simp: counted_def hist_total_zero channel_total_zero)

text \<open>The witness: a frame of 2 by 2 pixels with padded rows; 12 counts, 4 in each channel.\<close>

theorem histogram_total_three_per_pixel_witness:
  "packed_rgb24 padded_frame (Ptr [1, 2, 3, 1, 2, 3, 0, 0, 9, 9, 9, 1, 2, 3, 0, 0] 0) \<and>
   (\<exists>h. hist_frame padded_frame (Ptr [1, 2, 3, 1, 2, 3, 0, 0, 9, 9, 9, 1, 2, 3, 0, 0] 0) zero_hist
          = Inr h \<and>
        hist_total h = 12 \<and> channel_total 0 h = 4 \<and> channel_total 1 h = 4 \<and>
        channel_total 2 h = 4)"
proof -
  have p: "packed_rgb24 padded_frame (Ptr [1, 2, 3, 1, 2, 3, 0, 0, 9, 9, 9, 1, 2, 3, 0, 0] 0)"
    by (simp add: packed_rgb24_def padded_frame_def upt_rec INT_MAX_def)
  from histogram_total_three_per_pixel [OF p] p show ?thesis
    by (simp add: padded_frame_def)
qed

text \<open>
  Claim C3 as stated fails: the histogram of a frame of one pixel (\<open>W * H = 1\<close>) sums
  to 3 over its 768 bins.
\<close>

theorem histogram_total_not_width_times_height:
  "packed_rgb24 (pixel_frame 7 7 7) (Ptr [7, 7, 7] 0) \<and>
   width (pixel_frame 7 7 7) * height (pixel_frame 7 7 7) = 1 \<and>
   map_sum id hist_total (hist_frame (pixel_frame 7 7 7) (Ptr [7, 7, 7] 0) zero_hist) = Inr 3"
proof -
  have p: "packed_rgb24 (pixel_frame 7 7 7) (Ptr [7, 7, 7] 0)"
    by (simp add: packed_rgb24_def pixel_frame_def INT_MAX_def)
  from hist_frame_counts [OF p packed_rgb24_room [OF p]]
  obtain h where "hist_frame (pixel_frame 7 7 7) (Ptr [7, 7, 7] 0) zero_hist = Inr h"
    "hist_total h = 3"
    by (auto simp: counted_def hist_total_zero pixel_frame_def)
  with p show ?thesis by (simp add: pixel_frame_def)
qed

subsection \<open>The sampler's loop, turn by turn\<close>

lemma arr_get_nat: "i < length xs \<Longrightarrow> arr_get xs (int i) = Inr (xs ! i)"
  by (simp add: arr_get_def)

lemma read_frames_failed:
  assumes "fst (fst (av_read_frame L (avfc s))) = e" "e \<noteq> 0" "e \<noteq> - 1"
  shows "read_frames L stream s = Some (Inr (s\<lparr>err := e, avfc := snd (av_read_frame L (avfc s))\<rparr>))"
  using assms by (subst read_frames.simps) (simp add: Let_def)


lemma sampling_first_frame:
  assumes "sampling s" "frame_i s \<noteq> 0"
  shows "\<exists>f0. arr_get (frames s) 0 = Inr (Some f0)"
proof -
  from assms have "0 < nat (frame_i s)" by (simp add: sampling_def)
  then have "0 \<in> set [0..<nat (frame_i s)]" by simp
  with assms(1) have "frames s ! 0 \<noteq> None"
    unfolding sampling_def list_all_iff by blast
  moreover from assms(1) have "0 < length (frames s)"
    by (simp add: sampling_def MAX_FRAMES_def)
  ultimately show ?thesis by (auto simp: arr_get_def)
qed

lemma read_frames_generic_failure:
  assumes "sampling s" "fst (fst (av_read_frame L (avfc s))) = - 1"
  shows "read_frames L stream s
           = Some (Inr (s\<lparr>err := (if frame_i s \<noteq> 0 \<and>
                                      (\<exists>f0. frames s ! 0 = Some f0 \<and> data f0 \<noteq> None)
                                   then 0 else - 1),
                          avfc := snd (av_read_frame L (avfc s))\<rparr>))"
proof (cases "frame_i s = 0")
  case True
  with assms(2) show ?thesis
    by (subst read_frames.simps) (simp add: Let_def)
next
  case False
  from sampling_first_frame [OF assms(1) False]
  obtain f0 where f0: "arr_get (frames s) 0 = Inr (Some f0)" by blast
  then have "frames s ! 0 = Some f0" by (simp add: arr_get_def split: if_splits)
  with assms(2) False f0 show ?thesis
    by (subst read_frames.simps) (simp add: Let_def)
qed

text \<open>
  In libavutil \<^verbatim>\<open>data\<close> is an array member of \<^verbatim>\<open>AVFrame\<close>, so that the test
  \<^verbatim>\<open>frames[0]->data\<close> of line 129 holds of every frame: the failure is silenced as
  soon as one frame was collected, whatever that frame carries.
\<close>

lemma read_failure_tolerated:
  assumes "sampling s" "fst (fst (av_read_frame L (avfc s))) = - 1"
    and "\<And>f0. frames s ! 0 = Some f0 \<Longrightarrow> data f0 \<noteq> None"
  shows "read_frames L stream s
           = Some (Inr (s\<lparr>err := (if frame_i s \<noteq> 0 then 0 else - 1),
                          avfc := snd (av_read_frame L (avfc s))\<rparr>))"
proof (cases "frame_i s = 0")
  case True
  with read_frames_generic_failure [OF assms(1,2)] show ?thesis by simp
next
  case False
  from sampling_first_frame [OF assms(1) False]
  obtain f0 where "arr_get (frames s) 0 = Inr (Some f0)" by blast
  then have "frames s ! 0 = Some f0" by (simp add: arr_get_def split: if_splits)
  with assms(3) have "\<exists>f0. frames s ! 0 = Some f0 \<and> data f0 \<noteq> None" by blast
  with read_frames_generic_failure [OF assms(1,2), of stream] False show ?thesis by simp
qed

lemma extract_end_no_frames:
  assumes "frame_i s < 1" "err s = 0 \<or> err s = AVERROR_EOF"
  shows "extract_end sws img s = Inr (- 1, img)"
  using assms by (auto simp: extract_end_def select_and_encode_def)









lemma sampling_start: "sampling (start w)"
  by (simp add: sampling_def start_def MAX_FRAMES_def)





subsection \<open>The loop as the iteration of its turn\<close>




lemma turn_goes_on:
  assumes "turn L stream s = Inr s'"
  shows "(\<exists>e w. s' = s\<lparr>err := e, avfc := w\<rparr>) \<or>
         (\<exists>f w. frame_i s + 1 \<noteq> int MAX_FRAMES \<and>
                s' = \<lparr>err = 0, frame_i = frame_i s + 1,
                       frames = (frames s)[nat (frame_i s) := Some f], avfc = w\<rparr>) \<or>
         (\<exists>e f w. s' = \<lparr>err = e, frame_i = frame_i s,
                       frames = (frames s)[nat (frame_i s) := Some f], avfc = w\<rparr>)"
  using assms
  by (simp add: turn_def Let_def split: if_splits sum.splits option.splits) blast+



text \<open>
  With \<open>MAX_FRAMES - 1\<close> frames collected, a turn that goes round has collected none:
  the turn that collects frame number \<open>MAX_FRAMES\<close> leaves the loop.
\<close>

lemma last_frame_leaves:
  assumes "frame_i s + 1 = int MAX_FRAMES" "turn L stream s = Inr s'"
  shows "frame_i s' = frame_i s"
  using turn_goes_on [OF assms(2)] assms(1) by auto













subsection \<open>The alternating session\<close>





subsection \<open>Scripted sessions\<close>

lemma scripted_read:
  "av_read_frame (scripted final script) n =
     (if n < length script then ((0, \<lparr>stream_index = 0\<rparr>), Suc n)
      else ((final, \<lparr>stream_index = 0\<rparr>), n))"
  by (simp add: scripted_def)

lemma scripted_send: "avcodec_send_packet (scripted final script) pkt n = (0, n)"
  by (simp add: scripted_def)

lemma scripted_alloc: "av_frame_alloc (scripted final script) n = (Some blank_frame, n)"
  by (simp add: scripted_def)

lemma scripted_receive:
  "avcodec_receive_frame (scripted final script) f n =
     (if 0 < n \<and> n \<le> length script then
        (case script ! (n - 1) of
           Decoded fr \<Rightarrow> ((0, fr), n)
         | NeedMoreInput \<Rightarrow> ((AVERROR EAGAIN, blank_frame), n))
      else ((AVERROR EAGAIN, blank_frame), n))"
  by (simp add: scripted_def)

lemmas scripted_simps = scripted_read scripted_send scripted_alloc scripted_receive

lemma sample_need_more_input:
  "read_frames (scripted AVERROR_EOF [NeedMoreInput]) 0 (start 0)
     = Some (Inr \<lparr>err = AVERROR_EOF, frame_i = 0,
                   frames = (replicate MAX_FRAMES None)[0 := Some blank_frame], avfc = 1\<rparr>)"
  apply (subst read_frames.simps)
  apply (simp add: scripted_simps start_def Let_def arr_get_def frame_slot_def MAX_FRAMES_def
      AVERROR_def EAGAIN_def)
  apply (subst read_frames.simps)
  apply (simp add: scripted_simps Let_def AVERROR_EOF_def)
  done

lemma sample_frame_then_need_more_input:
  "read_frames (scripted AVERROR_EOF [Decoded (pixel_frame 0 0 0), NeedMoreInput]) 0 (start 0)
     = Some (Inr \<lparr>err = AVERROR_EOF, frame_i = 1,
                   frames = (replicate MAX_FRAMES None)
                              [0 := Some (pixel_frame 0 0 0), 1 := Some blank_frame],
                   avfc = 2\<rparr>)"
  apply (subst read_frames.simps)
  apply (simp add: scripted_simps start_def Let_def arr_get_def frame_slot_def MAX_FRAMES_def
      AVERROR_def EAGAIN_def)
  apply (subst read_frames.simps)
  apply (simp add: scripted_simps start_def Let_def arr_get_def frame_slot_def MAX_FRAMES_def
      AVERROR_def EAGAIN_def)
  apply (subst read_frames.simps)
  apply (simp add: scripted_simps Let_def AVERROR_EOF_def)
  done

subsection \<open>The sampler's claims\<close>




text \<open>
  Claim C5. When the loop ends normally or at end-of-stream (\<open>err\<close> is 0 or
  \<^verbatim>\<open>AVERROR_EOF\<close>) with no frame collected, the operation returns \<open>- 1\<close> and leaves
  the image as it was.
\<close>

theorem no_frames_decoded:
  assumes "read_frames L stream (start w) = Some (Inr s)"
    and "frame_i s = 0" and "err s = 0 \<or> err s = AVERROR_EOF"
  shows "extract_video_image L sws img w stream = Some (Inr (- 1, img))"
  using assms by (simp add: extract_video_image_def extract_end_no_frames)

text \<open>
  The witness: the only packet makes the decoder ask for more input (a frame buffer
  is allocated and left blank), then the demuxer reports end-of-stream.
\<close>

theorem no_frames_decoded_witness:
  "extract_video_image (scripted AVERROR_EOF [NeedMoreInput]) (rgba_lib 1) no_image 0 0
     = Some (Inr (- 1, no_image))"
  using no_frames_decoded [OF sample_need_more_input, of "rgba_lib 1" no_image] by simp

subsection \<open>The selector's loops\<close>

declare compute_hists.simps [simp del]

lemma compute_error_sum:
  "compute_error h m = (\<Sum>i<HIST_SIZE. (m i - real_of_int (h i)) * (m i - real_of_int (h i)))"
proof -
  have "fold (\<lambda>i s. s + g i) [0..<n] a = a + (\<Sum>i<n. g i)" for g :: "nat \<Rightarrow> real" and n a
    by (induction n arbitrary: a) simp_all
  then show ?thesis by (simp add: compute_error_def)
qed

lemma compute_error_nonneg: "0 \<le> compute_error h m"
  by (simp add: compute_error_sum sum_nonneg)

lemma compute_error_equal:
  "(\<And>b. b < HIST_SIZE \<Longrightarrow> m b = real_of_int (h b)) \<Longrightarrow> compute_error h m = 0"
  by (simp add: compute_error_sum)

lemma compute_error_differs:
  assumes "b < HIST_SIZE" "m b \<noteq> real_of_int (h b)"
  shows "0 < compute_error h m"
proof -
  let ?g = "\<lambda>i. (m i - real_of_int (h i)) * (m i - real_of_int (h i))"
  have "0 < ?g b" using assms(2) by (simp add: zero_less_mult_iff) linarith
  also have "?g b \<le> (\<Sum>i<HIST_SIZE. ?g i)"
    by (rule member_le_sum) (use assms(1) in auto)
  finally show ?thesis by (simp add: compute_error_sum)
qed

lemma for_loop_append:
  "for_loop (xs @ ys) body s =
     (case for_loop xs body s of Inl e \<Rightarrow> Inl e | Inr s' \<Rightarrow> for_loop ys body s')"
  by (induction xs arbitrary: s) (auto split: sum.splits)

lemma for_loop_fails_at:
  assumes "\<And>i s. i < n \<Longrightarrow> \<exists>s'. body i s = Inr s'" and "\<And>s. body n s = Inl e"
  shows "for_loop [0..<Suc n] body s = Inl e"
proof -
  have "\<exists>s'. for_loop [0..<n] body s = Inr s' \<and> True"
    by (rule for_loop_upt_inv [where I = "\<lambda>_ _. True"]) (use assms(1) in auto)
  then obtain s' where "for_loop [0..<n] body s = Inr s'" by blast
  with assms(2) show ?thesis by (simp add: for_loop_append)
qed

lemma average_hists_full:
  assumes "length hs = MAX_FRAMES"
  shows "average_hists (int MAX_FRAMES) hs = Inl OutOfBounds"
proof -
  have inner: "for_loop [0..<Suc MAX_FRAMES] (average_assign hs j) a = Inl OutOfBounds" for j a
  proof (rule for_loop_fails_at)
    fix i s assume "i < MAX_FRAMES"
    with assms show "\<exists>s'. average_assign hs j i s = Inr s'"
      by (simp add: average_assign_def arr_get_def)
  next
    fix s show "average_assign hs j MAX_FRAMES s = Inl OutOfBounds"
      using assms by (simp add: average_assign_def arr_get_def)
  qed
  have n: "nat (int MAX_FRAMES + 1) = Suc MAX_FRAMES" by simp
  have bin: "average_bin (int MAX_FRAMES) hs 0 a = Inl OutOfBounds" for a
    unfolding average_bin_def n inner by simp
  have "[0..<Suc MAX_FRAMES] = 0 # [Suc 0..<Suc MAX_FRAMES]"
    by (rule upt_conv_Cons) simp
  then show ?thesis
    unfolding average_hists_def n by (simp del: upt_Suc add: bin)
qed

lemma compute_hists_full:
  assumes fs: "length fs = MAX_FRAMES"
    and ok: "\<And>i. i < MAX_FRAMES \<Longrightarrow> \<exists>f p. fs ! i = Some f \<and> data f = Some p \<and> packed_rgb24 f p"
  shows "length hs = MAX_FRAMES \<Longrightarrow> (\<And>i. k \<le> i \<Longrightarrow> i < MAX_FRAMES \<Longrightarrow> hs ! i = zero_hist) \<Longrightarrow>
         MAX_FRAMES - k = n \<Longrightarrow> k \<le> MAX_FRAMES \<Longrightarrow>
         \<exists>hs'. compute_hists fs (int k) hs = Inr (int MAX_FRAMES, hs') \<and> length hs' = MAX_FRAMES"
proof (induction n arbitrary: k hs)
  case 0
  then have "k = MAX_FRAMES" by simp
  with 0 show ?case by (simp add: compute_hists.simps)
next
  case (Suc n)
  then have k: "k < MAX_FRAMES" by simp
  from ok [OF k] obtain f p where f: "fs ! k = Some f" "data f = Some p" "packed_rgb24 f p"
    by blast
  from Suc.prems(2) [of k] k have z: "hs ! k = zero_hist" by simp
  from hist_frame_counts [OF f(3) packed_rgb24_room [OF f(3)]] z
  obtain row where row: "hist_frame f p (hs ! k) = Inr row" by auto
  have "\<exists>hs'. compute_hists fs (int (Suc k)) (hs[k := row]) = Inr (int MAX_FRAMES, hs') \<and>
          length hs' = MAX_FRAMES"
    by (rule Suc.IH) (use Suc.prems k in auto)
  moreover have "compute_hists fs (int k) hs = compute_hists fs (int (Suc k)) (hs[k := row])"
    using k fs Suc.prems(1) f row
    by (subst compute_hists.simps) (simp add: arr_get_def add.commute)
  ultimately show ?case by simp
qed

lemma scannableD: "scannable x \<Longrightarrow> \<exists>f p. x = Some f \<and> data f = Some p \<and> packed_rgb24 f p"
  by (auto simp: scannable_def split: option.splits)

lemma average_inner:
  assumes "m < length hs"
  shows "for_loop [0..<Suc m] (average_assign hs j) a = Inr (a(j := real_of_int ((hs ! m) j)))"
  using assms
proof (induction m)
  case 0
  have "[0..<Suc 0] = [0]" by simp
  moreover have "average_assign hs j 0 a = Inr (a(j := real_of_int ((hs ! 0) j)))"
    using 0 by (simp add: average_assign_def arr_get_def)
  ultimately show ?case by (simp del: upt_Suc add: fun_upd_def)
next
  case (Suc m)
  from Suc.prems have "m < length hs" by simp
  note ih = Suc.IH [OF this]
  have split: "[0..<Suc (Suc m)] = [0..<Suc m] @ [Suc m]" by simp
  have last: "average_assign hs j (Suc m) x = Inr (x(j := real_of_int ((hs ! Suc m) j)))" for x
    using arr_get_nat [OF Suc.prems] by (simp add: average_assign_def)
  show ?case unfolding split for_loop_append ih by (simp add: last fun_upd_def fun_eq_iff)
qed

lemma average_bin_last:
  assumes "0 \<le> n" "nat n < length hs"
  shows "average_bin n hs j a
           = Inr (a(j := real_of_int ((hs ! nat n) j) / real_of_int (n + 1)))"
proof -
  from assms(1) have "nat (n + 1) = Suc (nat n)" by simp
  then show ?thesis
    using average_inner [OF assms(2), of j a] by (simp add: average_bin_def)
qed

lemma average_outer:
  assumes "0 \<le> n" "nat n < length hs"
  shows "for_loop [0..<k] (average_bin n hs) (\<lambda>b. 0)
           = Inr (\<lambda>b. if b < k then real_of_int ((hs ! nat n) b) / real_of_int (n + 1) else 0)"
proof (induction k)
  case 0
  show ?case by simp
next
  case (Suc k)
  have "[0..<Suc k] = [0..<k] @ [k]" by simp
  then show ?case
    using Suc by (simp only: for_loop_append) (auto simp: average_bin_last [OF assms] fun_eq_iff)
qed

lemma average_hists_last_frame:
  assumes "0 \<le> n" "nat n < length hs"
  shows "average_hists n hs
           = Inr (\<lambda>b. if b \<le> nat n then real_of_int ((hs ! nat n) b) / real_of_int (n + 1)
                      else 0)"
proof -
  from assms(1) have "nat (n + 1) = Suc (nat n)" by simp
  then show ?thesis
    unfolding average_hists_def using average_outer [OF assms, of "Suc (nat n)"]
    by (simp add: less_Suc_eq_le)
qed

lemma closest_frame_first_minimum:
  assumes "0 \<le> n" "nat n < length hs"
  shows "\<exists>best. closest_frame n hs avg = Inr (int best) \<and>
           first_minimum (\<lambda>i. compute_error (hs ! i) avg) (Suc (nat n)) best"
proof -
  let ?E = "\<lambda>i. compute_error (hs ! i) avg"
  let ?I = "\<lambda>k s. (k = 0 \<and> s = (0, - 1)) \<or>
                 (\<exists>b. s = (int b, ?E b) \<and> first_minimum ?E k b)"
  have "\<exists>s'. for_loop [0..<Suc (nat n)] (closest_step hs avg) (0, - 1) = Inr s' \<and>
          ?I (Suc (nat n)) s'"
  proof (rule for_loop_upt_inv [where I = ?I])
    show "?I 0 (0, - 1)" by simp
  next
    fix k s assume k: "k < Suc (nat n)" and s: "?I k s"
    from k assms(2) have g: "arr_get hs (int k) = Inr (hs ! k)" by (simp add: arr_get_nat)
    show "\<exists>s'. closest_step hs avg k s = Inr s' \<and> ?I (Suc k) s'"
    proof (cases "k = 0")
      case True
      then have "closest_step hs avg k s = Inr (int 0, ?E 0)"
        using g by (simp add: closest_step_def Let_def)
      moreover have "first_minimum ?E (Suc 0) 0" by (simp add: first_minimum_def)
      ultimately show ?thesis using True by auto
    next
      case False
      with s obtain b where b: "s = (int b, ?E b)" "first_minimum ?E k b" by auto
      show ?thesis
      proof (cases "?E k < ?E b")
        case True
        then have "closest_step hs avg k s = Inr (int k, ?E k)"
          using g b(1) by (simp add: closest_step_def Let_def)
        moreover have "first_minimum ?E (Suc k) k"
          using b(2) True by (fastforce simp: first_minimum_def less_Suc_eq)
        ultimately show ?thesis by auto
      next
        case nl: False
        then have "closest_step hs avg k s = Inr s"
          using g b(1) False by (simp add: closest_step_def Let_def)
        moreover have "first_minimum ?E (Suc k) b"
          using b(2) nl by (auto simp: first_minimum_def less_Suc_eq)
        ultimately show ?thesis using b(1) by auto
      qed
    qed
  qed
  then obtain s' where s': "for_loop [0..<Suc (nat n)] (closest_step hs avg) (0, - 1) = Inr s'"
    "\<exists>b. s' = (int b, ?E b) \<and> first_minimum ?E (Suc (nat n)) b" by auto
  from assms(1) have "nat (n + 1) = Suc (nat n)" by simp
  with s' show ?thesis by (auto simp: closest_frame_def)
qed

lemma compute_hists_prefix:
  assumes fs: "length fs = MAX_FRAMES" and n: "n < MAX_FRAMES"
    and ok: "\<And>i. i < n \<Longrightarrow> scannable (fs ! i)"
    and stop: "case fs ! n of None \<Rightarrow> True | Some f \<Rightarrow> data f = None"
  shows "length hs = MAX_FRAMES \<Longrightarrow> (\<And>i. k \<le> i \<Longrightarrow> i < MAX_FRAMES \<Longrightarrow> hs ! i = zero_hist) \<Longrightarrow>
         n - k = d \<Longrightarrow> k \<le> n \<Longrightarrow>
         \<exists>hs'. compute_hists fs (int k) hs = Inr (int n - 1, hs') \<and> length hs' = MAX_FRAMES"
proof (induction d arbitrary: k hs)
  case 0
  then have "k = n" by simp
  with 0 n fs stop show ?case
    by (subst compute_hists.simps) (simp add: arr_get_def split: option.splits)
next
  case (Suc d)
  then have k: "k < n" by simp
  from scannableD [OF ok [OF k]]
  obtain f p where f: "fs ! k = Some f" "data f = Some p" "packed_rgb24 f p" by blast
  from Suc.prems(2) [of k] k n have z: "hs ! k = zero_hist" by simp
  from hist_frame_counts [OF f(3) packed_rgb24_room [OF f(3)]] z
  obtain row where row: "hist_frame f p (hs ! k) = Inr row" by auto
  have "\<exists>hs'. compute_hists fs (int (Suc k)) (hs[k := row]) = Inr (int n - 1, hs') \<and>
          length hs' = MAX_FRAMES"
    by (rule Suc.IH) (use Suc.prems k in auto)
  moreover have "compute_hists fs (int k) hs = compute_hists fs (int (Suc k)) (hs[k := row])"
    using k n fs Suc.prems(1) f row
    by (subst compute_hists.simps) (simp add: arr_get_def add.commute)
  ultimately show ?case by simp
qed

text \<open>
  With fewer than \<open>MAX_FRAMES\<close> frames to scan, the index returned is the first one of
  least error against the average the code computes. The errors are those of the
  model, computed exactly in the reals: where two of them are equal, the rounding of
  the code's \<^verbatim>\<open>double\<close>s can decide otherwise.
\<close>

lemma select_best_frame_first_minimum:
  assumes fs: "length fs = MAX_FRAMES" and n: "0 < n" "n < MAX_FRAMES"
    and ok: "\<And>i. i < n \<Longrightarrow> scannable (fs ! i)"
    and stop: "case fs ! n of None \<Rightarrow> True | Some f \<Rightarrow> data f = None"
  shows "\<exists>best hs avg.
           compute_hists fs 0 (replicate MAX_FRAMES zero_hist) = Inr (int n - 1, hs) \<and>
           average_hists (int n - 1) hs = Inr avg \<and>
           select_best_frame fs = Inr (int best) \<and>
           first_minimum (\<lambda>i. compute_error (hs ! i) avg) n best"
proof -
  from compute_hists_prefix [OF fs n(2) ok stop, of "replicate MAX_FRAMES zero_hist" 0 n]
  obtain hs where hs: "compute_hists fs 0 (replicate MAX_FRAMES zero_hist) = Inr (int n - 1, hs)"
    "length hs = MAX_FRAMES" by auto
  from n hs(2) have b: "0 \<le> int n - 1" "nat (int n - 1) < length hs" by auto
  from average_hists_last_frame [OF b]
  obtain avg where avg: "average_hists (int n - 1) hs = Inr avg" by blast
  from closest_frame_first_minimum [OF b, of avg]
  obtain best where best: "closest_frame (int n - 1) hs avg = Inr (int best)"
    "first_minimum (\<lambda>i. compute_error (hs ! i) avg) (Suc (nat (int n - 1))) best" by blast
  from n have "Suc (nat (int n - 1)) = n" by simp
  with best(2) have "first_minimum (\<lambda>i. compute_error (hs ! i) avg) n best" by simp
  moreover from n have "int n - 1 \<noteq> - 1" by simp
  then have "select_best_frame fs = Inr (int best)"
    using hs(1) avg best(1) by (simp add: select_best_frame_def)
  ultimately show ?thesis using hs(1) avg by blast
qed

subsection \<open>The selector and the converter on small inputs\<close>

lemmas scan_simps = compute_hists.simps MAX_FRAMES_def INT_MAX_def arr_get_def pixel_frame_def
  blank_frame_def hist_frame_def hist_rows_step_def hist_row_def hist_pixel_def
  hist_channel_def upt_rec zero_hist_def

lemma scan_one_and_blank:
  "compute_hists ((replicate MAX_FRAMES None)[0 := Some (pixel_frame 0 0 0), 1 := Some blank_frame])
     0 (replicate MAX_FRAMES zero_hist)
   = Inr (1, (replicate MAX_FRAMES zero_hist)
               [0 := zero_hist(0 := 1, 256 := 1, 512 := 1), 1 := zero_hist])"
  by (simp add: scan_simps)

lemma average_one_and_blank:
  "average_hists 1 ((replicate MAX_FRAMES zero_hist)
               [0 := zero_hist(0 := 1, 256 := 1, 512 := 1), 1 := zero_hist])
   = Inr (\<lambda>b. 0)"
proof -
  have "(\<lambda>b. 0 :: real)(k := 0) = (\<lambda>b. 0)" for k :: nat by (rule ext) simp
  then show ?thesis
    by (simp add: average_hists_def average_bin_def average_assign_def arr_get_def MAX_FRAMES_def
        upt_rec zero_hist_def)
qed

lemma closest_one_and_blank:
  "closest_frame 1 ((replicate MAX_FRAMES zero_hist)
               [0 := zero_hist(0 := 1, 256 := 1, 512 := 1), 1 := zero_hist]) (\<lambda>b. 0)
   = Inr 1"
proof -
  have e0: "0 < compute_error (zero_hist(0 := 1, 256 := 1, 512 := 1)) (\<lambda>b. 0)"
    by (rule compute_error_differs [of 0]) (simp_all add: HIST_SIZE_def)
  have e1: "compute_error zero_hist (\<lambda>b. 0) = 0"
    by (rule compute_error_equal) (simp add: zero_hist_def)
  show ?thesis
    using e0 e1
    by (simp add: closest_frame_def closest_step_def arr_get_def MAX_FRAMES_def upt_rec Let_def)
qed

lemma select_one_and_blank:
  "select_best_frame ((replicate MAX_FRAMES None)[0 := Some (pixel_frame 0 0 0), 1 := Some blank_frame])
     = Inr 1"
  unfolding select_best_frame_def scan_one_and_blank
  by (simp del: One_nat_def add: average_one_and_blank closest_one_and_blank)

lemma zero_update: "(\<lambda>b. 0 :: real)(k := 0) = (\<lambda>b. 0)"
  by (rule ext) simp

lemma sample_one_frame:
  "read_frames (scripted AVERROR_EOF [Decoded (pixel_frame 0 0 0)]) 0 (start 0)
     = Some (Inr \<lparr>err = AVERROR_EOF, frame_i = 1,
                   frames = (replicate MAX_FRAMES None)[0 := Some (pixel_frame 0 0 0)],
                   avfc = 1\<rparr>)"
  apply (subst read_frames.simps)
  apply (simp add: scripted_simps start_def Let_def arr_get_def frame_slot_def MAX_FRAMES_def
      AVERROR_def EAGAIN_def)
  apply (subst read_frames.simps)
  apply (simp add: scripted_simps Let_def AVERROR_EOF_def)
  done

lemma scan_one:
  "compute_hists ((replicate MAX_FRAMES None)[0 := Some (pixel_frame 0 0 0)])
     0 (replicate MAX_FRAMES zero_hist)
   = Inr (0, (replicate MAX_FRAMES zero_hist)[0 := zero_hist(0 := 1, 256 := 1, 512 := 1)])"
  by (simp add: scan_simps)

lemma select_one:
  "select_best_frame ((replicate MAX_FRAMES None)[0 := Some (pixel_frame 0 0 0)]) = Inr 0"
  unfolding select_best_frame_def scan_one
  by (simp add: average_hists_def average_bin_def average_assign_def closest_frame_def
      closest_step_def arr_get_def MAX_FRAMES_def Let_def)

lemma encode_pixel:
  "encode_frame (rgba_lib r) no_image (pixel_frame 0 0 0)
     = (0, \<lparr>img_data = Some [255, 255, 255, 255], img_size = 4, img_width = 1,
             img_height = 1\<rparr>)"
  by (simp add: encode_frame_def rgba_lib_def no_image_def pixel_frame_def to_ulong_def
      dst_linesize_def Let_def upt_rec)

lemma encode_blank:
  "encode_frame (rgba_lib r) img blank_frame = (AVERROR ENOMEM, img)"
  by (simp add: encode_frame_def rgba_lib_def blank_frame_def)

lemma scan_twins:
  "compute_hists ((replicate MAX_FRAMES None)
                    [0 := Some (pixel_frame 0 0 0), 1 := Some (pixel_frame 0 0 0)])
     0 (replicate MAX_FRAMES zero_hist)
   = Inr (1, (replicate MAX_FRAMES zero_hist)
               [0 := zero_hist(0 := 1, 256 := 1, 512 := 1),
                1 := zero_hist(0 := 1, 256 := 1, 512 := 1)])"
  by (simp add: scan_simps)

lemma average_twins:
  "average_hists 1 ((replicate MAX_FRAMES zero_hist)
               [0 := zero_hist(0 := 1, 256 := 1, 512 := 1),
                1 := zero_hist(0 := 1, 256 := 1, 512 := 1)])
   = Inr ((\<lambda>b. 0)(0 := 1 / 2, 1 := 0))"
  by (simp add: average_hists_def average_bin_def average_assign_def arr_get_def MAX_FRAMES_def
        upt_rec zero_hist_def zero_update)

lemma get_one_and_blank:
  "arr_get ((replicate MAX_FRAMES None)[0 := Some (pixel_frame 0 0 0), 1 := Some blank_frame]) 1
     = Inr (Some blank_frame)"
  by (simp add: arr_get_def MAX_FRAMES_def)

subsection \<open>The selector's claims\<close>

text \<open>
  Claim C1 fails on the code. For two frames with the same histogram (one pixel
  \<open>(0, 0, 0)\<close> each: count 1 in bins 0, 256 and 512), the loop of lines 39--54 ends
  with \<open>frame_i = 1\<close> and the average of lines 61--68 is \<open>1 / 2\<close> in bin 0 and 0 in
  bins 256 and 512, where the mean of the two histograms is 1 in all three. (In
  general, \<open>average_hists_last_frame\<close>: bin \<open>b \<le> frame_i\<close> holds the count of the last
  frame alone, divided by the number of frames, and every other bin is 0.)
\<close>

theorem average_is_not_the_mean:
  "compute_hists ((replicate MAX_FRAMES None)
                    [0 := Some (pixel_frame 0 0 0), 1 := Some (pixel_frame 0 0 0)])
     0 (replicate MAX_FRAMES zero_hist)
   = Inr (1, (replicate MAX_FRAMES zero_hist)
               [0 := zero_hist(0 := 1, 256 := 1, 512 := 1),
                1 := zero_hist(0 := 1, 256 := 1, 512 := 1)]) \<and>
   map_sum id (\<lambda>average. (average 0, average 256, average 512))
     (average_hists 1 ((replicate MAX_FRAMES zero_hist)
               [0 := zero_hist(0 := 1, 256 := 1, 512 := 1),
                1 := zero_hist(0 := 1, 256 := 1, 512 := 1)]))
   = Inr (1 / 2, 0, 0)"
  unfolding scan_twins average_twins by simp

text \<open>
  Claim C2 fails on the code when all \<open>MAX_FRAMES\<close> slots hold frames: the loop of
  lines 39--54 then ends with \<open>frame_i = MAX_FRAMES\<close>, and line 65 reads
  \<^verbatim>\<open>hists[MAX_FRAMES]\<close>, outside the array. (For fewer frames,
  \<open>select_best_frame_first_minimum\<close>: with the errors computed exactly, as the model
  computes them, the first index of least error is returned.)
\<close>

theorem selector_reads_past_hists:
  assumes "length fs = MAX_FRAMES" and "list_all scannable fs"
  shows "select_best_frame fs = Inl OutOfBounds"
proof -
  have ok: "\<exists>f p. fs ! i = Some f \<and> data f = Some p \<and> packed_rgb24 f p" if "i < MAX_FRAMES" for i
  proof -
    from that assms(1) have "fs ! i \<in> set fs" by simp
    with assms(2) have "scannable (fs ! i)" by (simp add: list_all_iff)
    then show ?thesis by (rule scannableD)
  qed
  from compute_hists_full [OF assms(1) ok, of "replicate MAX_FRAMES zero_hist" 0 MAX_FRAMES]
  obtain hs' where "compute_hists fs 0 (replicate MAX_FRAMES zero_hist) = Inr (int MAX_FRAMES, hs')"
    "length hs' = MAX_FRAMES" by auto
  then show ?thesis
    by (simp add: select_best_frame_def average_hists_full)
qed

text \<open>The witness: an array of 100 one-pixel frames.\<close>

theorem selector_reads_past_hists_witness:
  "select_best_frame (replicate MAX_FRAMES (Some (pixel_frame 0 0 0))) = Inl OutOfBounds"
  by (rule selector_reads_past_hists)
    (simp_all add: list_all_iff scannable_def pixel_frame_def packed_rgb24_def MAX_FRAMES_def
      INT_MAX_def)

text \<open>
  Claim C8 fails on the code. Session: the first packet gives a frame, the second
  makes the decoder ask for more input (\<^verbatim>\<open>frames[1]\<close> is allocated and stays blank),
  then end-of-stream. The sampler has collected \<open>frame_i = 1\<close> frame, and the selector
  returns index 1.
\<close>

theorem selected_index_beyond_sample_set:
  "map_option (map_sum id (\<lambda>s. (frame_i s, select_best_frame (frames s))))
     (read_frames (scripted AVERROR_EOF [Decoded (pixel_frame 0 0 0), NeedMoreInput]) 0 (start 0))
   = Some (Inr (1, Inr 1))"
  unfolding sample_frame_then_need_more_input
  by (simp del: One_nat_def add: select_one_and_blank)

text \<open>
  Claim C9 fails on the code, on the same session: the loop of lines 39--54 gives the
  blank buffer \<^verbatim>\<open>frames[1]\<close> a histogram (it ends with \<open>frame_i = 1\<close>, two histograms),
  that buffer is the one selected, and the operation fails in the converter although
  a frame was decoded.
\<close>

theorem unfilled_buffer_selected:
  "compute_hists ((replicate MAX_FRAMES None)
                    [0 := Some (pixel_frame 0 0 0), 1 := Some blank_frame])
     0 (replicate MAX_FRAMES zero_hist)
   = Inr (1, (replicate MAX_FRAMES zero_hist)
               [0 := zero_hist(0 := 1, 256 := 1, 512 := 1), 1 := zero_hist]) \<and>
   extract_video_image (scripted AVERROR_EOF [Decoded (pixel_frame 0 0 0), NeedMoreInput])
     (rgba_lib 1) no_image 0 0
   = Some (Inr (AVERROR ENOMEM, no_image))"
proof -
  have "extract_video_image (scripted AVERROR_EOF [Decoded (pixel_frame 0 0 0), NeedMoreInput])
     (rgba_lib 1) no_image 0 0
   = Some (Inr (AVERROR ENOMEM, no_image))"
    unfolding extract_video_image_def sample_frame_then_need_more_input
    by (simp del: One_nat_def
        add: extract_end_def select_and_encode_def select_one_and_blank get_one_and_blank
          encode_blank)
  with scan_one_and_blank show ?thesis by simp
qed

subsection \<open>The generic read failure\<close>

lemma sample_frame_then_failure:
  assumes "data fr \<noteq> None"
  shows "read_frames (scripted (- 1) [Decoded fr]) 0 (start 0)
     = Some (Inr \<lparr>err = 0, frame_i = 1,
                   frames = (replicate MAX_FRAMES None)[0 := Some fr], avfc = 1\<rparr>)"
  apply (subst read_frames.simps)
  apply (simp add: scripted_simps start_def Let_def arr_get_def frame_slot_def MAX_FRAMES_def
      AVERROR_def EAGAIN_def)
  apply (subst read_frames.simps)
  apply (simp add: scripted_simps Let_def arr_get_def assms)
  done



text \<open>
  Where the code does what claim C6 says. After one frame with its pixel data, the
  failure is silenced and the frame is selected and converted; with no frame, the
  failure \<open>- 1\<close> is returned and the image is untouched.
\<close>

lemma read_failure_with_and_without_frame:
  "has_pixel_data (pixel_frame 0 0 0) \<and>
   extract_video_image (scripted (- 1) [Decoded (pixel_frame 0 0 0)]) (rgba_lib 1) no_image 0 0
     = Some (Inr (0, \<lparr>img_data = Some [255, 255, 255, 255], img_size = 4, img_width = 1,
                       img_height = 1\<rparr>)) \<and>
   extract_video_image (scripted (- 1) []) (rgba_lib 1) no_image 0 0
     = Some (Inr (- 1, no_image))"
proof -
  have p: "data (pixel_frame 0 0 0) \<noteq> None" by (simp add: pixel_frame_def)
  have g: "arr_get ((replicate MAX_FRAMES None)[0 := Some (pixel_frame 0 0 0)]) 0
             = Inr (Some (pixel_frame 0 0 0))"
    by (simp add: arr_get_def MAX_FRAMES_def)
  have "extract_video_image (scripted (- 1) [Decoded (pixel_frame 0 0 0)]) (rgba_lib 1) no_image 0 0
     = Some (Inr (0, \<lparr>img_data = Some [255, 255, 255, 255], img_size = 4, img_width = 1,
                       img_height = 1\<rparr>))"
    unfolding extract_video_image_def sample_frame_then_failure [OF p]
    by (simp add: extract_end_def select_and_encode_def select_one g encode_pixel)
  moreover have "read_frames (scripted (- 1) []) 0 (start 0) = Some (Inr ((start 0)\<lparr>err := - 1\<rparr>))"
    using read_frames_generic_failure [OF sampling_start, of "scripted (- 1) []" 0 0]
    by (simp add: scripted_read start_def)
  then have "extract_video_image (scripted (- 1) []) (rgba_lib 1) no_image 0 0
     = Some (Inr (- 1, no_image))"
    by (simp add: extract_video_image_def extract_end_def AVERROR_EOF_def)
  ultimately show ?thesis by (simp add: has_pixel_data_def pixel_frame_def)
qed


subsection \<open>The converter's claims\<close>

lemma encode_frame_result:
  "encode_frame sws img f =
     (if sws_getContext sws (width f) (height f) (format f)
      then (0, snd (encode_frame sws img f)) else (AVERROR ENOMEM, img))"
  by (simp add: encode_frame_def Let_def)

lemma extract_end_encodes:
  assumes "select_best_frame (frames s) = Inr best" "best \<noteq> - 1"
    and "arr_get (frames s) best = Inr (Some f)"
    and "1 \<le> frame_i s" and "err s = 0 \<or> err s = AVERROR_EOF"
  shows "extract_end sws img s = Inr (encode_frame sws img f)"
  using assms by (auto simp: extract_end_def select_and_encode_def)

text \<open>
  Claim C7, as amended. The result of the converter on the selected frame is the
  result of the whole operation; the converter returns \<^verbatim>\<open>AVERROR(ENOMEM)\<close> and
  leaves the image untouched when no conversion context is created, and returns 0
  otherwise: what \<^verbatim>\<open>sws_scale\<close> returns is not looked at.
\<close>

theorem conversion_failures:
  assumes "select_best_frame (frames s) = Inr best" "best \<noteq> - 1"
    and "arr_get (frames s) best = Inr (Some f)"
    and "1 \<le> frame_i s" and "err s = 0 \<or> err s = AVERROR_EOF"
  shows "extract_end sws img s = Inr (encode_frame sws img f) \<and>
         encode_frame sws img f =
           (if sws_getContext sws (width f) (height f) (format f)
            then (0, snd (encode_frame sws img f)) else (AVERROR ENOMEM, img))"
  using extract_end_encodes [OF assms] encode_frame_result by blast

text \<open>
  The witness: the blank frame is selected, no context is created for it, and the
  operation returns \<^verbatim>\<open>AVERROR(ENOMEM)\<close> without an image.
\<close>

theorem conversion_failures_witness:
  "select_best_frame ((replicate MAX_FRAMES None)
                        [0 := Some (pixel_frame 0 0 0), 1 := Some blank_frame]) = Inr 1 \<and>
   arr_get ((replicate MAX_FRAMES None)[0 := Some (pixel_frame 0 0 0), 1 := Some blank_frame]) 1
     = Inr (Some blank_frame) \<and>
   \<not> sws_getContext (rgba_lib 1) (width blank_frame) (height blank_frame) (format blank_frame) \<and>
   extract_end (rgba_lib 1) no_image
     \<lparr>err = AVERROR_EOF, frame_i = 1,
       frames = (replicate MAX_FRAMES None)
                  [0 := Some (pixel_frame 0 0 0), 1 := Some blank_frame],
       avfc = Suc (Suc 0)\<rparr>
     = Inr (AVERROR ENOMEM, no_image)"
proof -
  let ?s = "\<lparr>err = AVERROR_EOF, frame_i = 1,
       frames = (replicate MAX_FRAMES None)
                  [0 := Some (pixel_frame 0 0 0), 1 := Some blank_frame],
       avfc = Suc (Suc 0)\<rparr>"
  have a: "select_best_frame (frames ?s) = Inr 1"
    by (simp del: One_nat_def add: select_one_and_blank)
  have b: "arr_get (frames ?s) 1 = Inr (Some blank_frame)"
    by (simp del: One_nat_def add: get_one_and_blank)
  have c: "\<not> sws_getContext (rgba_lib 1) (width blank_frame) (height blank_frame)
               (format blank_frame)"
    by (simp add: rgba_lib_def blank_frame_def)
  from conversion_failures [OF a _ b, of "rgba_lib 1" no_image] c
  have "extract_end (rgba_lib 1) no_image ?s = Inr (AVERROR ENOMEM, no_image)"
    by simp
  with select_one_and_blank get_one_and_blank c show ?thesis by simp
qed

text \<open>
  Claim C7 as stated fails: with a transform that reports \<^verbatim>\<open>AVERROR(EINVAL)\<close>, the
  operation still returns 0 and an image.
\<close>

theorem transform_error_ignored:
  "fst (sws_scale (rgba_lib (AVERROR 22)) (pixel_frame 0 0 0) 4) = - 22 \<and>
   extract_video_image (scripted AVERROR_EOF [Decoded (pixel_frame 0 0 0)])
     (rgba_lib (AVERROR 22)) no_image 0 0
   = Some (Inr (0, \<lparr>img_data = Some [255, 255, 255, 255], img_size = 4, img_width = 1,
                     img_height = 1\<rparr>))"
proof -
  have g: "arr_get ((replicate MAX_FRAMES None)[0 := Some (pixel_frame 0 0 0)]) 0
             = Inr (Some (pixel_frame 0 0 0))"
    by (simp add: arr_get_def MAX_FRAMES_def)
  have "extract_video_image (scripted AVERROR_EOF [Decoded (pixel_frame 0 0 0)])
     (rgba_lib (AVERROR 22)) no_image 0 0
   = Some (Inr (0, \<lparr>img_data = Some [255, 255, 255, 255], img_size = 4, img_width = 1,
                     img_height = 1\<rparr>))"
    unfolding extract_video_image_def sample_one_frame
    by (simp add: extract_end_def select_and_encode_def select_one g encode_pixel)
  then show ?thesis by (simp add: rgba_lib_def AVERROR_def)
qed





end
